theory Spec2Isabelle
  imports Main
begin

section \<open>The debounce controller of docs/3.advanced/debounce\<close>

text \<open>
  The source is one TypeScript function, \<open>debounce(fn, wait, options)\<close>, whose closure
  variables are the scheduler's state and whose inner functions mutate them. The model
  makes the closure variables a record, threads it through every inner function, and adds
  the two things of the host the code talks to: the queue of scheduled \<open>setTimeout\<close>
  tasks and the trace of the executions of the wrapped action.

  Times are the integers \<open>Date.now()\<close> returns. A JavaScript value that may be
  \<open>null\<close> or \<open>undefined\<close> is an \<open>option\<close>. The argument list of a call is a list.
  The wrapped action is a function of its receiver and its arguments that either throws
  (\<open>Inl\<close>) or returns a value (\<open>Inr\<close>); it is assumed not to call back into the
  controller.
\<close>

subsection \<open>Configuration and state\<close>

record ('c, 'v, 'e, 'r) config =
  fn :: "'c option \<Rightarrow> 'v list \<Rightarrow> 'e + 'r option"
  wait :: int
  leading :: bool
  trailing :: bool
  maxWait :: "int option"

text \<open>
  The closure variables \<open>timer\<close>, \<open>lastArgs\<close>, \<open>lastThis\<close>, \<open>lastCallTime\<close>,
  \<open>lastInvokeTime\<close> and \<open>result\<close>, followed by the host: \<open>tasks\<close> are the scheduled
  callbacks (handle and due time; every callback of this controller is
  \<open>() => trailingEdge(Date.now())\<close>), \<open>nextHandle\<close> is the next handle \<open>setTimeout\<close>
  returns, and \<open>executions\<close> records each application of the wrapped action: the time
  handed to \<open>invokeFunc\<close>, the receiver and the arguments.
\<close>

record ('c, 'v, 'r) state =
  timer :: "nat option"
  lastArgs :: "'v list option"
  lastThis :: "'c option"
  lastCallTime :: "int option"
  lastInvokeTime :: int
  result :: "'r option"
  tasks :: "(nat \<times> int) list"
  nextHandle :: nat
  executions :: "(int \<times> 'c option \<times> 'v list) list"

datatype ('e, 'r) outcome = Returned "'r option" | Threw 'e

definition debounce_init :: "('c, 'v, 'r) state" where
  "debounce_init =
     \<lparr>timer = None, lastArgs = None, lastThis = None, lastCallTime = None,
      lastInvokeTime = 0, result = None, tasks = [], nextHandle = 0, executions = []\<rparr>"

subsection \<open>The host's timers\<close>

definition clearTimeout :: "nat \<Rightarrow> (nat \<times> int) list \<Rightarrow> (nat \<times> int) list" where
  "clearTimeout h ts = filter (\<lambda>p. fst p \<noteq> h) ts"

text \<open>\<open>setTimeout\<close> treats a negative delay as zero.\<close>

definition setTimeout :: "int \<Rightarrow> int \<Rightarrow> ('c, 'v, 'r) state \<Rightarrow> nat \<times> ('c, 'v, 'r) state" where
  "setTimeout now delay s =
     (nextHandle s,
      s\<lparr>tasks := tasks s @ [(nextHandle s, now + max 0 delay)],
        nextHandle := Suc (nextHandle s)\<rparr>)"

subsection \<open>The inner functions\<close>

text \<open>
  \<open>invokeFunc\<close>: the assignment to \<open>lastInvokeTime\<close> precedes the application; when the
  action throws, the two assignments after it are not reached. \<open>fn.apply(lastThis, null)\<close>
  applies to no arguments.
\<close>

definition invokeFunc ::
  "('c, 'v, 'e, 'r) config \<Rightarrow> ('c, 'v, 'r) state \<Rightarrow> int \<Rightarrow> ('c, 'v, 'r) state \<times> ('e, 'r) outcome" where
  "invokeFunc cfg s time =
     (let args = (case lastArgs s of None \<Rightarrow> [] | Some a \<Rightarrow> a);
          s1 = s\<lparr>lastInvokeTime := time,
                 executions := executions s @ [(time, lastThis s, args)]\<rparr>
      in case fn cfg (lastThis s) args of
           Inl e \<Rightarrow> (s1, Threw e)
         | Inr r \<Rightarrow> (s1\<lparr>result := r, lastArgs := None, lastThis := None\<rparr>, Returned r))"

definition startTimer :: "('c, 'v, 'r) state \<Rightarrow> int \<Rightarrow> int \<Rightarrow> ('c, 'v, 'r) state" where
  "startTimer s now w =
     (let s1 = (case timer s of
                  Some h \<Rightarrow> s\<lparr>tasks := clearTimeout h (tasks s)\<rparr>
                | None \<Rightarrow> s);
          (h', s2) = setTimeout now w s1
      in s2\<lparr>timer := Some h'\<rparr>)"

definition shouldInvoke :: "('c, 'v, 'e, 'r) config \<Rightarrow> ('c, 'v, 'r) state \<Rightarrow> int \<Rightarrow> bool" where
  "shouldInvoke cfg s time =
     (if lastInvokeTime s = 0 then True
      else case maxWait cfg of
             Some m \<Rightarrow> time - lastInvokeTime s \<ge> m
           | None \<Rightarrow> False)"

definition trailingEdge ::
  "('c, 'v, 'e, 'r) config \<Rightarrow> ('c, 'v, 'r) state \<Rightarrow> int \<Rightarrow> ('c, 'v, 'r) state \<times> ('e, 'r) outcome" where
  "trailingEdge cfg s time =
     (let s1 = s\<lparr>timer := None\<rparr>
      in if trailing cfg \<and> lastArgs s1 \<noteq> None then invokeFunc cfg s1 time
         else (s1\<lparr>lastArgs := None, lastThis := None\<rparr>, Returned (result s1)))"

subsection \<open>The proxy and its two controls\<close>

definition debounced ::
  "('c, 'v, 'e, 'r) config \<Rightarrow> ('c, 'v, 'r) state \<Rightarrow> int \<Rightarrow> 'c option \<Rightarrow> 'v list
     \<Rightarrow> ('c, 'v, 'r) state \<times> ('e, 'r) outcome" where
  "debounced cfg s now this args =
     (let isInvoking = shouldInvoke cfg s now;
          s1 = s\<lparr>lastArgs := Some args, lastThis := this, lastCallTime := Some now\<rparr>
      in if isInvoking then
           if timer s1 = None then
             if leading cfg then
               (case invokeFunc cfg s1 now of
                  (s2, Threw e) \<Rightarrow> (s2, Threw e)
                | (s2, Returned r) \<Rightarrow>
                    (let s3 = startTimer s2 now (wait cfg) in (s3, Returned (result s3))))
             else (let s3 = startTimer s1 now (wait cfg) in (s3, Returned (result s3)))
           else if maxWait cfg \<noteq> None then
             (let s3 = startTimer s1 now (wait cfg) in (s3, Returned (result s3)))
           else (s1, Returned (result s1))
         else if timer s1 = None then
           (let s3 = startTimer s1 now (wait cfg) in (s3, Returned (result s3)))
         else (s1, Returned (result s1)))"

text \<open>\<open>cancel\<close> has no \<open>return\<close> statement: its type is \<open>() => void\<close>.\<close>

definition cancel :: "('c, 'v, 'r) state \<Rightarrow> ('c, 'v, 'r) state \<times> unit" where
  "cancel s =
     (let s1 = (case timer s of
                  Some h \<Rightarrow> s\<lparr>tasks := clearTimeout h (tasks s), timer := None\<rparr>
                | None \<Rightarrow> s)
      in (s1\<lparr>lastArgs := None, lastThis := None, lastInvokeTime := 0\<rparr>, ()))"

definition flush ::
  "('c, 'v, 'e, 'r) config \<Rightarrow> ('c, 'v, 'r) state \<Rightarrow> int \<Rightarrow> ('c, 'v, 'r) state \<times> ('e, 'r) outcome" where
  "flush cfg s now =
     (case timer s of
        Some h \<Rightarrow> trailingEdge cfg (s\<lparr>tasks := clearTimeout h (tasks s), timer := None\<rparr>) now
      | None \<Rightarrow> (s, Returned (result s)))"

subsection \<open>The host running a scheduled callback\<close>

text \<open>
  The host runs the callback of a task only if the task is still scheduled and its due
  time has come; it removes the task and calls \<open>trailingEdge(Date.now())\<close>. Otherwise
  there is nothing to run.
\<close>

definition fire ::
  "('c, 'v, 'e, 'r) config \<Rightarrow> ('c, 'v, 'r) state \<Rightarrow> nat \<Rightarrow> int \<Rightarrow> ('c, 'v, 'r) state \<times> ('e, 'r) outcome" where
  "fire cfg s h now =
     (case find (\<lambda>p. fst p = h) (tasks s) of
        None \<Rightarrow> (s, Returned None)
      | Some p \<Rightarrow>
          if snd p \<le> now then trailingEdge cfg (s\<lparr>tasks := clearTimeout h (tasks s)\<rparr>) now
          else (s, Returned None))"

datatype ('c, 'v) event = Call "'c option" "'v list" | Fire nat | Cancel | Flush

fun step :: "('c, 'v, 'e, 'r) config \<Rightarrow> ('c, 'v, 'r) state \<Rightarrow> int \<times> ('c, 'v) event
     \<Rightarrow> ('c, 'v, 'r) state \<times> ('e, 'r) outcome" where
  "step cfg s (now, Call this args) = debounced cfg s now this args"
| "step cfg s (now, Fire h) = fire cfg s h now"
| "step cfg s (now, Cancel) = (fst (cancel s), Returned None)"
| "step cfg s (now, Flush) = flush cfg s now"

text \<open>Every state the controller can be in: any events at any times, from construction.\<close>

inductive reachable :: "('c, 'v, 'e, 'r) config \<Rightarrow> ('c, 'v, 'r) state \<Rightarrow> bool"
  for cfg :: "('c, 'v, 'e, 'r) config" where
  reach_init: "reachable cfg debounce_init"
| reach_step: "reachable cfg s \<Longrightarrow> reachable cfg (fst (step cfg s tev))"

text \<open>
  A run of events at any times, firings included as events, and the receivers and
  arguments of the proxy calls in it.
\<close>

definition steps :: "('c, 'v, 'e, 'r) config \<Rightarrow> ('c, 'v, 'r) state \<Rightarrow> (int \<times> ('c, 'v) event) list
     \<Rightarrow> ('c, 'v, 'r) state" where
  "steps cfg s tevs = foldl (\<lambda>s' tev. fst (step cfg s' tev)) s tevs"

fun called :: "(int \<times> ('c, 'v) event) list \<Rightarrow> ('c option \<times> 'v list) list" where
  "called [] = []"
| "called ((t, Call this args) # tevs) = (this, args) # called tevs"
| "called ((t, Fire h) # tevs) = called tevs"
| "called ((t, Cancel) # tevs) = called tevs"
| "called ((t, Flush) # tevs) = called tevs"

subsection \<open>A punctual host\<close>

text \<open>
  For the claims about wait windows the host is taken to be punctual: a task runs at its
  due time, and before anything else that happens at that time or later. \<open>advance\<close>
  lets the clock reach \<open>t\<close>; \<open>run\<close> plays a schedule of timed events.
\<close>

definition advance :: "('c, 'v, 'e, 'r) config \<Rightarrow> ('c, 'v, 'r) state \<Rightarrow> int \<Rightarrow> ('c, 'v, 'r) state" where
  "advance cfg s t =
     foldl (\<lambda>s' p. if snd p \<le> t then fst (fire cfg s' (fst p) (snd p)) else s') s (tasks s)"

fun run :: "('c, 'v, 'e, 'r) config \<Rightarrow> ('c, 'v, 'r) state \<Rightarrow> (int \<times> ('c, 'v) event) list
     \<Rightarrow> ('c, 'v, 'r) state" where
  "run cfg s [] = s"
| "run cfg s (tev # tevs) = run cfg (fst (step cfg (advance cfg s (fst tev)) tev)) tevs"

text \<open>A schedule of proxy calls: time, receiver, arguments.\<close>

definition call_events :: "(int \<times> 'c option \<times> 'v list) list \<Rightarrow> (int \<times> ('c, 'v) event) list" where
  "call_events cs = map (\<lambda>x. (fst x, Call (fst (snd x)) (snd (snd x)))) cs"

text \<open>Calls that follow one another, each less than \<open>w\<close> after the one before.\<close>

fun chained :: "int \<Rightarrow> int \<Rightarrow> (int \<times> 'c option \<times> 'v list) list \<Rightarrow> bool" where
  "chained w prev [] = True"
| "chained w prev (x # xs) = (prev \<le> fst x \<and> fst x < prev + w \<and> chained w (fst x) xs)"

text \<open>The invariant that ties the closure's \<open>timer\<close> to the host's queue.\<close>

definition timer_ok :: "('c, 'v, 'r) state \<Rightarrow> bool" where
  "timer_ok s \<longleftrightarrow> map fst (tasks s) = (case timer s of None \<Rightarrow> [] | Some h \<Rightarrow> [h])"

subsection \<open>The example of the source\<close>

text \<open>
  \<open>greet\<close> logs and returns \<open>undefined\<close>; \<open>demo_cfg\<close> is the call
  \<open>debounce(greet, 2000, {leading: true, trailing: true, maxWait: 5000})\<close> of the source.
  \<open>boom\<close> is an action that always throws.
\<close>

definition greet :: "unit option \<Rightarrow> string list \<Rightarrow> unit + unit option" where
  "greet this args = Inr None"

definition boom :: "unit option \<Rightarrow> string list \<Rightarrow> unit + unit option" where
  "boom this args = Inl ()"

definition demo_cfg :: "(unit, string, unit, unit) config" where
  "demo_cfg = \<lparr>fn = greet, wait = 2000, leading = True, trailing = True, maxWait = Some 5000\<rparr>"

text \<open>The state after the example's first call, made at time 1000.\<close>

definition demo_after_tom :: "(unit, string, unit) state" where
  "demo_after_tom = fst (debounced demo_cfg debounce_init 1000 None [''Tom''])"

text \<open>The same state once \<open>flush\<close> at time 1500 has closed the window.\<close>

definition demo_after_tom_flushed :: "(unit, string, unit) state" where
  "demo_after_tom_flushed = fst (flush demo_cfg demo_after_tom 1500)"

text \<open>The example's second call, at time 2000, while the timer of the first is outstanding.\<close>

definition demo_after_jerry :: "(unit, string, unit) state" where
  "demo_after_jerry = fst (debounced demo_cfg demo_after_tom 2000 None [''Jerry''])"

text \<open>A pending call whose action will throw: trailing only, one call at time 1000.\<close>

definition demo_boom_pending :: "(unit, string, unit) state" where
  "demo_boom_pending =
     fst (debounced (demo_cfg\<lparr>fn := boom, leading := False\<rparr>) debounce_init 1000 None [''Tom''])"

text \<open>
  A configuration with \<open>maxWait = 3000\<close> and a caller that never pauses for \<open>wait\<close>:
  the gaps between its calls are 1950, 1950, 1100, 1900 and 1900.
\<close>

definition starve_cfg :: "(unit, string, unit, unit) config" where
  "starve_cfg = demo_cfg\<lparr>maxWait := Some 3000\<rparr>"

definition starve_calls :: "(int \<times> (unit, string) event) list" where
  "starve_calls =
     [(1000, Call None [''a'']), (2950, Call None [''b'']), (4900, Call None [''c'']),
      (6000, Call None [''d'']), (7900, Call None [''e'']), (9800, Call None [''f''])]"

text \<open>The state a throwing action leaves behind a first call, at time 1000.\<close>

definition demo_boom_thrown :: "(unit, string, unit) state" where
  "demo_boom_thrown = fst (debounced (demo_cfg\<lparr>fn := boom\<rparr>) debounce_init 1000 None [''Tom''])"

text \<open>The state inside a first call made at clock time 0, as \<open>invokeFunc\<close> finds it.\<close>

definition demo_zero_pending :: "(unit, string, unit) state" where
  "demo_zero_pending =
     debounce_init\<lparr>lastArgs := Some [''Tom''], lastThis := None, lastCallTime := Some 0\<rparr>"

section \<open>Properties\<close>

subsection \<open>What each function leaves alone\<close>

lemma invokeFunc_frame:
  "timer (fst (invokeFunc cfg s t)) = timer s"
  "tasks (fst (invokeFunc cfg s t)) = tasks s"
  "nextHandle (fst (invokeFunc cfg s t)) = nextHandle s"
  "lastCallTime (fst (invokeFunc cfg s t)) = lastCallTime s"
  "lastInvokeTime (fst (invokeFunc cfg s t)) = t"
  "executions (fst (invokeFunc cfg s t)) =
     executions s @ [(t, lastThis s, case lastArgs s of None \<Rightarrow> [] | Some a \<Rightarrow> a)]"
  by (simp_all add: invokeFunc_def Let_def split: sum.splits)

lemma startTimer_frame:
  "lastArgs (startTimer s now w) = lastArgs s"
  "lastThis (startTimer s now w) = lastThis s"
  "lastCallTime (startTimer s now w) = lastCallTime s"
  "lastInvokeTime (startTimer s now w) = lastInvokeTime s"
  "result (startTimer s now w) = result s"
  "executions (startTimer s now w) = executions s"
  by (simp_all add: startTimer_def setTimeout_def Let_def split: option.splits)

lemma timer_ok_invokeFunc: "timer_ok (fst (invokeFunc cfg s t)) = timer_ok s"
  by (simp add: timer_ok_def invokeFunc_frame)

lemma timer_ok_startTimer: "timer_ok s \<Longrightarrow> timer_ok (startTimer s now w)"
  by (auto simp: startTimer_def setTimeout_def clearTimeout_def timer_ok_def Let_def
      filter_empty_conv split: option.splits)

lemma startTimer_fresh:
  "timer_ok s \<Longrightarrow>
   startTimer s now w =
     s\<lparr>timer := Some (nextHandle s), tasks := [(nextHandle s, now + max 0 w)],
       nextHandle := Suc (nextHandle s)\<rparr>"
  by (auto simp: startTimer_def setTimeout_def clearTimeout_def timer_ok_def Let_def
      filter_empty_conv split: option.splits)

lemma timer_ok_trailingEdge: "tasks s = [] \<Longrightarrow> timer_ok (fst (trailingEdge cfg s t))"
  by (simp add: trailingEdge_def timer_ok_def invokeFunc_frame Let_def)

lemma timer_ok_debounced: "timer_ok s \<Longrightarrow> timer_ok (fst (debounced cfg s now this args))"
proof -
  assume ok: "timer_ok s"
  let ?s1 = "s\<lparr>lastArgs := Some args, lastThis := this, lastCallTime := Some now\<rparr>"
  have ok1: "timer_ok ?s1" using ok by (simp add: timer_ok_def)
  have lead: "timer_ok (fst (case invokeFunc cfg ?s1 now of
                  (s2, Threw e) \<Rightarrow> (s2, Threw e)
                | (s2, Returned r) \<Rightarrow>
                    (let s3 = startTimer s2 now (wait cfg) in (s3, Returned (result s3)))))"
  proof (cases "invokeFunc cfg ?s1 now")
    case (Pair s2 out)
    then have "timer_ok s2" using timer_ok_invokeFunc [of cfg ?s1 now] ok1 by simp
    then show ?thesis using Pair by (cases out) (simp_all add: timer_ok_startTimer Let_def)
  qed
  show ?thesis
    using ok1 lead unfolding debounced_def Let_def
    by (simp add: timer_ok_startTimer)
qed

lemma timer_ok_cancel: "timer_ok s \<Longrightarrow> timer_ok (fst (cancel s))"
  by (auto simp: cancel_def clearTimeout_def timer_ok_def Let_def filter_empty_conv split: option.splits)

lemma clearTimeout_single: "timer_ok s \<Longrightarrow> timer s = Some h \<Longrightarrow> clearTimeout h (tasks s) = []"
  by (auto simp: clearTimeout_def timer_ok_def filter_empty_conv)

lemma timer_ok_flush: "timer_ok s \<Longrightarrow> timer_ok (fst (flush cfg s now))"
  by (auto simp: flush_def clearTimeout_single timer_ok_trailingEdge split: option.splits)

lemma timer_ok_fire: "timer_ok s \<Longrightarrow> timer_ok (fst (fire cfg s h now))"
proof -
  assume ok: "timer_ok s"
  show ?thesis
  proof (cases "find (\<lambda>p. fst p = h) (tasks s)")
    case None
    then show ?thesis using ok by (simp add: fire_def)
  next
    case (Some p)
    then have "clearTimeout h (tasks s) = []"
      using ok by (auto simp: timer_ok_def clearTimeout_def filter_empty_conv split: option.splits if_splits)
    then show ?thesis using ok Some by (simp add: fire_def timer_ok_trailingEdge)
  qed
qed

lemma timer_ok_step: "timer_ok s \<Longrightarrow> timer_ok (fst (step cfg s tev))"
proof (cases tev)
  case (Pair now ev)
  assume "timer_ok s"
  then show ?thesis using Pair
    by (cases ev) (simp_all add: timer_ok_debounced timer_ok_fire timer_ok_cancel timer_ok_flush)
qed

lemma timer_ok_reachable: "reachable cfg s \<Longrightarrow> timer_ok s"
proof (induction rule: reachable.induct)
  case reach_init
  show ?case by (simp add: timer_ok_def debounce_init_def)
next
  case (reach_step s tev)
  then show ?case by (simp add: timer_ok_step)
qed

subsection \<open>The example, evaluated\<close>

lemma demo_after_tom_eq:
  "demo_after_tom =
     \<lparr>timer = Some 0, lastArgs = None, lastThis = None, lastCallTime = Some 1000,
      lastInvokeTime = 1000, result = None, tasks = [(0, 3000)], nextHandle = 1,
      executions = [(1000, None, [''Tom''])]\<rparr>"
  by (simp add: demo_after_tom_def debounced_def shouldInvoke_def invokeFunc_def startTimer_def
      setTimeout_def demo_cfg_def greet_def debounce_init_def Let_def)

lemma demo_after_tom_flushed_eq:
  "demo_after_tom_flushed =
     \<lparr>timer = None, lastArgs = None, lastThis = None, lastCallTime = Some 1000,
      lastInvokeTime = 1000, result = None, tasks = [], nextHandle = 1,
      executions = [(1000, None, [''Tom''])]\<rparr>"
  by (simp add: demo_after_tom_flushed_def demo_after_tom_eq flush_def trailingEdge_def
      clearTimeout_def Let_def)

lemma demo_after_jerry_eq:
  "demo_after_jerry =
     \<lparr>timer = Some 0, lastArgs = Some [''Jerry''], lastThis = None, lastCallTime = Some 2000,
      lastInvokeTime = 1000, result = None, tasks = [(0, 3000)], nextHandle = 1,
      executions = [(1000, None, [''Tom''])]\<rparr>"
  by (simp add: demo_after_jerry_def demo_after_tom_eq debounced_def shouldInvoke_def
      demo_cfg_def Let_def)




lemma timer_ok_demo:
  "timer_ok demo_after_jerry" "timer_ok demo_after_tom_flushed" "timer_ok debounce_init"
  by (simp_all add: timer_ok_def demo_after_jerry_eq demo_after_tom_flushed_eq debounce_init_def)

lemma demo_boom_pending_eq:
  "demo_boom_pending =
     \<lparr>timer = Some 0, lastArgs = Some [''Tom''], lastThis = None, lastCallTime = Some 1000,
      lastInvokeTime = 0, result = None, tasks = [(0, 3000)], nextHandle = 1,
      executions = []\<rparr>"
  by (simp add: demo_boom_pending_def debounced_def shouldInvoke_def startTimer_def
      setTimeout_def demo_cfg_def debounce_init_def Let_def)

lemma demo_after_tom_reachable: "reachable demo_cfg demo_after_tom"
  using reach_step [OF reach_init, of demo_cfg "(1000, Call None [''Tom''])"]
  by (simp add: demo_after_tom_def)

subsection \<open>The punctual host inside one window\<close>

lemma advance_no_tasks: "tasks s = [] \<Longrightarrow> advance cfg s t = s"
  by (simp add: advance_def)

lemma advance_not_due: "tasks s = [(h, d)] \<Longrightarrow> t < d \<Longrightarrow> advance cfg s t = s"
  by (simp add: advance_def)

lemma advance_due:
  "tasks s = [(h, d)] \<Longrightarrow> d \<le> t \<Longrightarrow>
   advance cfg s t = fst (trailingEdge cfg (s\<lparr>tasks := []\<rparr>) d)"
  by (simp add: advance_def fire_def clearTimeout_def)

lemma call_in_window:
  assumes "maxWait cfg = None" "timer s = Some h" "tasks s = [(h, d)]" "t < d"
  shows "fst (step cfg (advance cfg s t) (t, Call c a)) =
           s\<lparr>lastArgs := Some a, lastThis := c, lastCallTime := Some t\<rparr>"
  using assms by (simp add: advance_not_due debounced_def Let_def)

lemma run_calls_in_window:
  assumes "maxWait cfg = None" "timer s = Some h" "tasks s = [(h, d)]"
    and "\<forall>x\<in>set cs. fst x < d"
  shows "run cfg s (call_events cs) =
           (if cs = [] then s
            else s\<lparr>lastArgs := Some (snd (snd (last cs))), lastThis := fst (snd (last cs)),
                   lastCallTime := Some (fst (last cs))\<rparr>)"
  using assms
proof (induction cs arbitrary: s)
  case Nil
  then show ?case by (simp add: call_events_def)
next
  case (Cons x cs)
  let ?s' = "s\<lparr>lastArgs := Some (snd (snd x)), lastThis := fst (snd x), lastCallTime := Some (fst x)\<rparr>"
  have st: "fst (step cfg (advance cfg s (fst x)) (fst x, Call (fst (snd x)) (snd (snd x)))) = ?s'"
  proof (rule call_in_window)
    show "maxWait cfg = None" by (rule Cons.prems(1))
    show "timer s = Some h" by (rule Cons.prems(2))
    show "tasks s = [(h, d)]" by (rule Cons.prems(3))
    show "fst x < d" using Cons.prems(4) by simp
  qed
  have "run cfg s (call_events (x # cs)) = run cfg ?s' (call_events cs)"
    using st by (simp add: call_events_def)
  also have "\<dots> = (if cs = [] then ?s'
            else ?s'\<lparr>lastArgs := Some (snd (snd (last cs))), lastThis := fst (snd (last cs)),
                   lastCallTime := Some (fst (last cs))\<rparr>)"
    using Cons.prems by (intro Cons.IH) simp_all
  finally show ?case by simp
qed

lemma first_call_trailing_only:
  assumes "\<not> leading cfg" "timer s = None" "tasks s = []"
  shows "fst (step cfg (advance cfg s t) (t, Call c a)) =
           s\<lparr>lastArgs := Some a, lastThis := c, lastCallTime := Some t,
             timer := Some (nextHandle s), tasks := [(nextHandle s, t + max 0 (wait cfg))],
             nextHandle := Suc (nextHandle s)\<rparr>"
proof -
  have "timer_ok (s\<lparr>lastArgs := Some a, lastThis := c, lastCallTime := Some t\<rparr>)"
    using assms by (simp add: timer_ok_def)
  then show ?thesis
    using assms by (simp add: advance_no_tasks debounced_def Let_def startTimer_fresh)
qed

lemma trailingEdge_frame:
  "timer (fst (trailingEdge cfg s t)) = None"
  "tasks (fst (trailingEdge cfg s t)) = tasks s"
  by (simp_all add: trailingEdge_def invokeFunc_frame Let_def)

lemma trailingEdge_result:
  "snd (trailingEdge cfg s t) = Returned r \<Longrightarrow> result (fst (trailingEdge cfg s t)) = r"
  by (auto simp: trailingEdge_def invokeFunc_def Let_def split: if_splits sum.splits)

lemma flush_timer: "timer (fst (flush cfg s now)) = None"
  by (simp add: flush_def trailingEdge_frame split: option.splits)

lemma cancel_eq:
  "timer_ok s \<Longrightarrow>
   fst (cancel s) = s\<lparr>timer := None, tasks := [], lastArgs := None, lastThis := None,
                       lastInvokeTime := 0\<rparr>"
  by (cases "timer s") (simp_all add: cancel_def clearTimeout_single timer_ok_def)

lemma fire_no_tasks: "tasks s = [] \<Longrightarrow> fire cfg s h t = (s, Returned None)"
  by (simp add: fire_def)

lemma trailingEdge_lastInvokeTime:
  "lastInvokeTime (fst (trailingEdge cfg s t)) = lastInvokeTime s \<or>
   lastInvokeTime (fst (trailingEdge cfg s t)) = t"
  by (simp add: trailingEdge_def invokeFunc_frame Let_def)

lemma debounced_state:
  "fst (debounced cfg s now this args) =
     (let s1 = s\<lparr>lastArgs := Some args, lastThis := this, lastCallTime := Some now\<rparr>
      in if shouldInvoke cfg s now then
           if timer s = None then
             if leading cfg then
               (case snd (invokeFunc cfg s1 now) of
                  Threw e \<Rightarrow> fst (invokeFunc cfg s1 now)
                | Returned r \<Rightarrow> startTimer (fst (invokeFunc cfg s1 now)) now (wait cfg))
             else startTimer s1 now (wait cfg)
           else if maxWait cfg \<noteq> None then startTimer s1 now (wait cfg)
           else s1
         else if timer s = None then startTimer s1 now (wait cfg)
         else s1)"
proof -
  let ?s1 = "s\<lparr>lastArgs := Some args, lastThis := this, lastCallTime := Some now\<rparr>"
  obtain s2 out where p: "invokeFunc cfg ?s1 now = (s2, out)" by (cases "invokeFunc cfg ?s1 now")
  show ?thesis
    unfolding debounced_def Let_def p by (cases out) simp_all
qed

lemma debounced_lastInvokeTime:
  "lastInvokeTime (fst (debounced cfg s now this args)) = lastInvokeTime s \<or>
   lastInvokeTime (fst (debounced cfg s now this args)) = now"
  by (simp add: debounced_state Let_def startTimer_frame invokeFunc_frame split: outcome.splits)

lemma fire_lastInvokeTime:
  "lastInvokeTime (fst (fire cfg s h now)) = lastInvokeTime s \<or>
   lastInvokeTime (fst (fire cfg s h now)) = now"
  using trailingEdge_lastInvokeTime [of cfg "s\<lparr>tasks := clearTimeout h (tasks s)\<rparr>" now]
  by (simp add: fire_def split: option.splits)

lemma flush_lastInvokeTime:
  "lastInvokeTime (fst (flush cfg s now)) = lastInvokeTime s \<or>
   lastInvokeTime (fst (flush cfg s now)) = now"
proof (cases "timer s")
  case None
  then show ?thesis by (simp add: flush_def)
next
  case (Some h)
  then show ?thesis
    using trailingEdge_lastInvokeTime [of cfg "s\<lparr>tasks := clearTimeout h (tasks s), timer := None\<rparr>" now]
    by (simp add: flush_def)
qed

subsection \<open>Forced calls while a timer is outstanding\<close>

text \<open>
  With \<open>maxWait\<close> set, a forced call that finds a timer outstanding executes nothing and
  moves the timer to \<open>wait\<close> from now. A caller that keeps calling within \<open>wait\<close>
  therefore never sees an execution once its calls are forced, whether by the sentinel or
  by \<open>maxWait\<close> having elapsed.
\<close>

lemma forced_call_resets:
  assumes "maxWait cfg = Some m" and "timer s = Some h" and "timer_ok s"
    and "shouldInvoke cfg s t"
  shows "debounced cfg s t c a =
           (s\<lparr>lastArgs := Some a, lastThis := c, lastCallTime := Some t,
              timer := Some (nextHandle s), tasks := [(nextHandle s, t + max 0 (wait cfg))],
              nextHandle := Suc (nextHandle s)\<rparr>, Returned (result s))"
proof -
  have "timer_ok (s\<lparr>lastArgs := Some a, lastThis := c, lastCallTime := Some t\<rparr>)"
    using assms(3) by (simp add: timer_ok_def)
  then show ?thesis
    using assms by (simp add: debounced_def Let_def startTimer_fresh)
qed

lemma forced_calls_never_execute:
  assumes "maxWait cfg = Some m" and "0 \<le> wait cfg"
    and "timer s = Some h" and "tasks s = [(h, t0 + wait cfg)]"
    and "lastInvokeTime s = 0 \<or> lastInvokeTime s + m \<le> t0"
    and "chained (wait cfg) t0 cs"
  shows "executions (run cfg s (call_events cs)) = executions s \<and>
         lastInvokeTime (run cfg s (call_events cs)) = lastInvokeTime s"
  using assms(3-6)
proof (induction cs arbitrary: s h t0)
  case Nil
  then show ?case by (simp add: call_events_def)
next
  case (Cons x cs)
  let ?t = "fst x"
  let ?s' = "s\<lparr>lastArgs := Some (snd (snd x)), lastThis := fst (snd x), lastCallTime := Some ?t,
              timer := Some (nextHandle s), tasks := [(nextHandle s, ?t + wait cfg)],
              nextHandle := Suc (nextHandle s)\<rparr>"
  have t: "t0 \<le> ?t" "?t < t0 + wait cfg" "chained (wait cfg) ?t cs"
    using Cons.prems(4) by simp_all
  have adv: "advance cfg s ?t = s"
    using Cons.prems(2) t(2) by (rule advance_not_due)
  have ok: "timer_ok s" using Cons.prems(1,2) by (simp add: timer_ok_def)
  have forced: "shouldInvoke cfg s ?t"
    using Cons.prems(3) t(1) assms(1) by (auto simp: shouldInvoke_def)
  have "debounced cfg s ?t (fst (snd x)) (snd (snd x)) = (?s', Returned (result s))"
    using forced_call_resets [OF assms(1) Cons.prems(1) ok forced] assms(2) by simp
  then have st: "fst (step cfg (advance cfg s ?t) (?t, Call (fst (snd x)) (snd (snd x)))) = ?s'"
    using adv by simp
  have "executions (run cfg ?s' (call_events cs)) = executions ?s' \<and>
        lastInvokeTime (run cfg ?s' (call_events cs)) = lastInvokeTime ?s'"
  proof (rule Cons.IH)
    show "timer ?s' = Some (nextHandle s)" by simp
    show "tasks ?s' = [(nextHandle s, ?t + wait cfg)]" by simp
    show "lastInvokeTime ?s' = 0 \<or> lastInvokeTime ?s' + m \<le> ?t"
      using Cons.prems(3) t(1) by auto
    show "chained (wait cfg) ?t cs" by (rule t(3))
  qed
  then show ?case using st by (simp add: call_events_def)
qed

subsection \<open>What a run adds to the executions\<close>

text \<open>
  Every step adds at most one execution, stamped with the step's time; it is the step's
  own call or the pending call of an outstanding timer. \<open>lastInvokeTime\<close> follows the
  last execution unless \<open>cancel\<close> resets it.
\<close>

lemma trailingEdge_log:
  "(executions (fst (trailingEdge cfg s t)) = executions s \<and>
      lastInvokeTime (fst (trailingEdge cfg s t)) = lastInvokeTime s) \<or>
   (\<exists>a. lastArgs s = Some a \<and>
      executions (fst (trailingEdge cfg s t)) = executions s @ [(t, lastThis s, a)] \<and>
      lastInvokeTime (fst (trailingEdge cfg s t)) = t)"
  by (auto simp: trailingEdge_def invokeFunc_frame Let_def)

lemma debounced_log:
  "(executions (fst (debounced cfg s t this args)) = executions s \<and>
      lastInvokeTime (fst (debounced cfg s t this args)) = lastInvokeTime s) \<or>
   (executions (fst (debounced cfg s t this args)) = executions s @ [(t, this, args)] \<and>
      lastInvokeTime (fst (debounced cfg s t this args)) = t)"
  by (simp add: debounced_state Let_def startTimer_frame invokeFunc_frame split: outcome.splits)

lemma step_log:
  "(executions (fst (step cfg s (t, ev))) = executions s \<and>
      (lastInvokeTime (fst (step cfg s (t, ev))) = lastInvokeTime s \<or>
       lastInvokeTime (fst (step cfg s (t, ev))) = 0)) \<or>
   (\<exists>c a. executions (fst (step cfg s (t, ev))) = executions s @ [(t, c, a)] \<and>
      lastInvokeTime (fst (step cfg s (t, ev))) = t \<and>
      (ev = Call c a \<or>
       (lastArgs s = Some a \<and> lastThis s = c \<and> (timer s \<noteq> None \<or> tasks s \<noteq> []))))"
proof (cases ev)
  case (Call this args)
  then show ?thesis using debounced_log [of cfg s t this args] by auto
next
  case (Fire h)
  show ?thesis
  proof (cases "find (\<lambda>p. fst p = h) (tasks s)")
    case None
    then show ?thesis using Fire by (simp add: fire_def)
  next
    case (Some p)
    then have ne: "tasks s \<noteq> []" by auto
    show ?thesis
      using Fire Some ne trailingEdge_log [of cfg "s\<lparr>tasks := clearTimeout h (tasks s)\<rparr>" t]
      by (auto simp: fire_def)
  qed
next
  case Cancel
  then show ?thesis by (simp add: cancel_def Let_def split: option.splits)
next
  case Flush
  show ?thesis
  proof (cases "timer s")
    case None
    then show ?thesis using Flush by (simp add: flush_def)
  next
    case (Some h)
    show ?thesis
      using Flush Some
        trailingEdge_log [of cfg "s\<lparr>tasks := clearTimeout h (tasks s), timer := None\<rparr>" t]
      by (auto simp: flush_def)
  qed
qed

lemma invokeFunc_returned:
  "snd (invokeFunc cfg s t) = Returned r \<Longrightarrow> lastArgs (fst (invokeFunc cfg s t)) = None"
  by (simp add: invokeFunc_def Let_def split: sum.splits)

lemma step_pending:
  assumes "timer (fst (step cfg s (t, ev))) \<noteq> None"
  shows "lastArgs (fst (step cfg s (t, ev))) = None \<or>
         (timer s \<noteq> None \<and> lastArgs (fst (step cfg s (t, ev))) = lastArgs s \<and>
            lastThis (fst (step cfg s (t, ev))) = lastThis s) \<or>
         (\<exists>c a. ev = Call c a \<and> lastArgs (fst (step cfg s (t, ev))) = Some a \<and>
            lastThis (fst (step cfg s (t, ev))) = c)"
proof (cases ev)
  case (Call this args)
  let ?s1 = "s\<lparr>lastArgs := Some args, lastThis := this, lastCallTime := Some t\<rparr>"
  show ?thesis
    using assms Call
    by (auto simp: debounced_state Let_def startTimer_frame invokeFunc_frame
        split: outcome.splits if_splits dest: invokeFunc_returned)
next
  case (Fire h)
  then show ?thesis
    using assms by (auto simp: fire_def trailingEdge_frame split: option.splits if_splits)
next
  case Cancel
  then show ?thesis using assms by (simp add: cancel_def Let_def split: option.splits)
next
  case Flush
  then show ?thesis using assms by (simp add: flush_timer)
qed

lemma steps_Cons: "steps cfg s (tev # tevs) = steps cfg (fst (step cfg s tev)) tevs"
  by (simp add: steps_def)

lemma steps_log_append: "\<exists>new. executions (steps cfg s tevs) = executions s @ new"
proof (induction tevs arbitrary: s)
  case Nil
  show ?case by (simp add: steps_def)
next
  case (Cons tev tevs)
  obtain t ev where tev: "tev = (t, ev)" by (cases tev)
  obtain n1 where n1: "executions (fst (step cfg s (t, ev))) = executions s @ n1"
    using step_log [of cfg s t ev] by auto
  obtain n2 where "executions (steps cfg (fst (step cfg s (t, ev))) tevs) =
      executions (fst (step cfg s (t, ev))) @ n2"
    using Cons.IH by blast
  then show ?case using n1 tev by (simp add: steps_Cons)
qed

lemma steps_zero:
  assumes "lastInvokeTime s = 0"
    and "executions (steps cfg s tevs) = executions s @ new"
    and "list_all (\<lambda>x. fst x = 0) new"
  shows "lastInvokeTime (steps cfg s tevs) = 0"
  using assms
proof (induction tevs arbitrary: s new)
  case Nil
  then show ?case by (simp add: steps_def)
next
  case (Cons tev tevs)
  obtain t ev where tev: "tev = (t, ev)" by (cases tev)
  let ?s1 = "fst (step cfg s (t, ev))"
  obtain n2 where n2: "executions (steps cfg ?s1 tevs) = executions ?s1 @ n2"
    using steps_log_append by blast
  have fin: "executions (steps cfg ?s1 tevs) = executions s @ new"
    using Cons.prems(2) tev by (simp add: steps_Cons)
  consider (same) "executions ?s1 = executions s" "lastInvokeTime ?s1 = 0"
    | (exec) c a where "executions ?s1 = executions s @ [(t, c, a)]" "lastInvokeTime ?s1 = t"
    using step_log [of cfg s t ev] Cons.prems(1) by auto
  then have "lastInvokeTime ?s1 = 0 \<and> list_all (\<lambda>x. fst x = 0) n2"
  proof cases
    case same
    then show ?thesis using n2 fin Cons.prems(3) by simp
  next
    case exec
    then have "new = (t, c, a) # n2" using n2 fin by simp
    then show ?thesis using exec Cons.prems(3) by simp
  qed
  then have "lastInvokeTime (steps cfg ?s1 tevs) = 0"
    using n2 by (intro Cons.IH [of ?s1 n2]) simp_all
  then show ?case using tev by (simp add: steps_Cons)
qed

lemma steps_provenance:
  assumes "timer_ok s"
    and "timer s = None \<or> lastArgs s = None \<or> (\<exists>a. lastArgs s = Some a \<and> (lastThis s, a) \<in> C)"
  shows "\<exists>new. executions (steps cfg s tevs) = executions s @ new \<and>
               snd ` set new \<subseteq> C \<union> set (called tevs)"
  using assms
proof (induction tevs arbitrary: s C)
  case Nil
  show ?case by (simp add: steps_def)
next
  case (Cons tev tevs)
  obtain t ev where tev: "tev = (t, ev)" by (cases tev)
  let ?s1 = "fst (step cfg s (t, ev))"
  let ?C1 = "C \<union> set (called [(t, ev)])"
  have ok1: "timer_ok ?s1" using Cons.prems(1) by (rule timer_ok_step)
  have tk: "tasks s \<noteq> [] \<Longrightarrow> timer s \<noteq> None"
    using Cons.prems(1) by (cases "timer s") (simp_all add: timer_ok_def)
  have sub: "set (called [(t, ev)]) \<subseteq> set (called ((t, ev) # tevs))"
    by (cases ev) auto
  have cat: "set (called ((t, ev) # tevs)) = set (called [(t, ev)]) \<union> set (called tevs)"
    by (cases ev) auto
  obtain n1 where n1: "executions ?s1 = executions s @ n1" "snd ` set n1 \<subseteq> ?C1"
  proof -
    consider (same) "executions ?s1 = executions s"
      | (exec) c a where "executions ?s1 = executions s @ [(t, c, a)]"
          "ev = Call c a \<or> (lastArgs s = Some a \<and> lastThis s = c \<and> timer s \<noteq> None)"
      using step_log [of cfg s t ev] tk by auto
    then show ?thesis
    proof cases
      case same
      then show ?thesis using that [of "[]"] by simp
    next
      case exec
      have "(c, a) \<in> ?C1" using exec(2) Cons.prems(2) by auto
      then show ?thesis using exec(1) that [of "[(t, c, a)]"] by simp
    qed
  qed
  have inv1: "timer ?s1 = None \<or> lastArgs ?s1 = None \<or>
      (\<exists>a. lastArgs ?s1 = Some a \<and> (lastThis ?s1, a) \<in> ?C1)"
  proof (cases "timer ?s1 = None")
    case True
    then show ?thesis by simp
  next
    case False
    from step_pending [OF False]
    show ?thesis
    proof (elim disjE)
      assume "lastArgs ?s1 = None"
      then show ?thesis by simp
    next
      assume "timer s \<noteq> None \<and> lastArgs ?s1 = lastArgs s \<and> lastThis ?s1 = lastThis s"
      then show ?thesis using Cons.prems(2) by auto
    next
      assume "\<exists>c a. ev = Call c a \<and> lastArgs ?s1 = Some a \<and> lastThis ?s1 = c"
      then obtain c a where call: "ev = Call c a" and la: "lastArgs ?s1 = Some a"
        and lt: "lastThis ?s1 = c"
        by (elim exE conjE)
      have "(c, a) \<in> set (called [(t, ev)])" unfolding call by simp
      then show ?thesis using la lt by simp
    qed
  qed
  obtain n2 where n2: "executions (steps cfg ?s1 tevs) = executions ?s1 @ n2"
      "snd ` set n2 \<subseteq> ?C1 \<union> set (called tevs)"
    using Cons.IH [OF ok1 inv1] by blast
  have "executions (steps cfg s (tev # tevs)) = executions s @ (n1 @ n2)"
    using n1(1) n2(1) tev by (simp add: steps_Cons)
  moreover have "snd ` set (n1 @ n2) \<subseteq> C \<union> set (called (tev # tevs))"
    using n1(2) n2(2) tev cat by auto
  ultimately show ?case by blast
qed

lemma no_replay:
  assumes "timer_ok s" and "timer s = None"
  shows "tasks s = [] \<and>
         flush cfg s now' = (s, Returned (result s)) \<and>
         fire cfg s h' now' = (s, Returned None) \<and>
         (\<exists>new. executions (steps cfg s tevs) = executions s @ new \<and>
                snd ` set new \<subseteq> set (called tevs))"
proof -
  have t: "tasks s = []" using assms by (simp add: timer_ok_def)
  have "\<exists>new. executions (steps cfg s tevs) = executions s @ new \<and>
               snd ` set new \<subseteq> {} \<union> set (called tevs)"
    using assms by (intro steps_provenance) simp_all
  then show ?thesis using t assms(2) by (simp add: flush_def fire_no_tasks)
qed

lemma demo_boom_thrown_eq:
  "demo_boom_thrown =
     \<lparr>timer = None, lastArgs = Some [''Tom''], lastThis = None, lastCallTime = Some 1000,
      lastInvokeTime = 1000, result = None, tasks = [], nextHandle = 0,
      executions = [(1000, None, [''Tom''])]\<rparr>"
  by (simp add: demo_boom_thrown_def debounced_def shouldInvoke_def invokeFunc_def demo_cfg_def
      boom_def debounce_init_def Let_def)

lemma demo_boom_thrown_later:
  "executions (steps (demo_cfg\<lparr>fn := boom\<rparr>) demo_boom_thrown
      [(1200, Flush), (1300, Fire 0), (1500, Call None [''Jerry'']), (3600, Fire 0)]) =
     [(1000, None, [''Tom'']), (3600, None, [''Jerry''])]"
  by (simp add: demo_boom_thrown_eq steps_def flush_def fire_def debounced_def shouldInvoke_def
      startTimer_def setTimeout_def clearTimeout_def trailingEdge_def invokeFunc_def demo_cfg_def
      boom_def Let_def)

lemma timer_ok_boom: "timer_ok demo_boom_pending"
  by (simp add: timer_ok_def demo_boom_pending_eq)

lemma demo_zero_steps:
  "steps demo_cfg (fst (invokeFunc demo_cfg demo_zero_pending 0))
     [(0, Call None [''Jerry'']), (1500, Call None [''Lucy''])] =
   \<lparr>timer = Some 1, lastArgs = Some [''Lucy''], lastThis = None, lastCallTime = Some 1500,
      lastInvokeTime = 0, result = None, tasks = [(1, 3500)], nextHandle = 2,
      executions = [(0, None, [''Tom'']), (0, None, [''Jerry''])]\<rparr>"
  by (simp add: demo_zero_pending_def steps_def debounced_def shouldInvoke_def startTimer_def
      setTimeout_def clearTimeout_def invokeFunc_def demo_cfg_def greet_def debounce_init_def
      Let_def)

subsection \<open>The claims\<close>

text \<open>
  C1. With \<open>trailing\<close> set, \<open>leading\<close> unset and no \<open>maxWait\<close>, take a state with no
  timer outstanding and any \<open>N \<ge> 1\<close> proxy calls, the first at \<open>t1\<close> and all the others
  before \<open>t1 + wait\<close>. On a punctual host the calls themselves execute nothing, and once
  the clock has reached \<open>t1 + wait\<close> exactly one execution has been added: it happened at
  \<open>t1 + wait\<close> with the receiver and the arguments of the last call, and no task is left
  that could add another.
\<close>

theorem coalescing:
  assumes "trailing cfg" and "\<not> leading cfg" and "maxWait cfg = None" and "0 \<le> wait cfg"
    and "timer s = None" and "tasks s = []"
    and "\<forall>x\<in>set rest. fst x < t1 + wait cfg"
    and "t1 + wait cfg \<le> T"
  shows "executions (run cfg s (call_events ((t1, c1, a1) # rest))) = executions s \<and>
         executions (advance cfg (run cfg s (call_events ((t1, c1, a1) # rest))) T) =
           executions s @ [(t1 + wait cfg, fst (snd (last ((t1, c1, a1) # rest))),
                            snd (snd (last ((t1, c1, a1) # rest))))] \<and>
         tasks (advance cfg (run cfg s (call_events ((t1, c1, a1) # rest))) T) = [] \<and>
         timer (advance cfg (run cfg s (call_events ((t1, c1, a1) # rest))) T) = None"
proof -
  let ?h = "nextHandle s"
  let ?d = "t1 + wait cfg"
  let ?s1 = "s\<lparr>lastArgs := Some a1, lastThis := c1, lastCallTime := Some t1,
             timer := Some ?h, tasks := [(?h, ?d)], nextHandle := Suc ?h\<rparr>"
  let ?l = "last ((t1, c1, a1) # rest)"
  let ?s2 = "?s1\<lparr>lastArgs := Some (snd (snd ?l)), lastThis := fst (snd ?l),
                 lastCallTime := Some (fst ?l)\<rparr>"
  have first: "fst (step cfg (advance cfg s t1) (t1, Call c1 a1)) = ?s1"
    using assms first_call_trailing_only [of cfg s t1 c1 a1] by simp
  have "run cfg ?s1 (call_events rest) =
          (if rest = [] then ?s1
           else ?s1\<lparr>lastArgs := Some (snd (snd (last rest))), lastThis := fst (snd (last rest)),
                  lastCallTime := Some (fst (last rest))\<rparr>)"
    using assms by (intro run_calls_in_window [where h = ?h and d = ?d]) simp_all
  then have rest: "run cfg ?s1 (call_events rest) = ?s2" by simp
  have all: "run cfg s (call_events ((t1, c1, a1) # rest)) = ?s2"
    using first rest by (simp add: call_events_def)
  have adv: "advance cfg ?s2 T = fst (trailingEdge cfg (?s2\<lparr>tasks := []\<rparr>) ?d)"
    using assms by (intro advance_due [where h = ?h]) simp_all
  have te: "trailingEdge cfg (?s2\<lparr>tasks := []\<rparr>) ?d = invokeFunc cfg (?s2\<lparr>tasks := [], timer := None\<rparr>) ?d"
    using assms by (simp add: trailingEdge_def Let_def)
  show ?thesis
    unfolding all adv te by (simp add: invokeFunc_frame)
qed

theorem coalescing_witness:
  "trailing (demo_cfg\<lparr>leading := False, maxWait := None\<rparr>) \<and>
   \<not> leading (demo_cfg\<lparr>leading := False, maxWait := None\<rparr>) \<and>
   maxWait (demo_cfg\<lparr>leading := False, maxWait := None\<rparr>) = None \<and>
   0 \<le> wait (demo_cfg\<lparr>leading := False, maxWait := None\<rparr>) \<and>
   timer demo_after_tom_flushed = None \<and> tasks demo_after_tom_flushed = [] \<and>
   4500 < 4000 + wait (demo_cfg\<lparr>leading := False, maxWait := None\<rparr>) \<and>
   5900 < 4000 + wait (demo_cfg\<lparr>leading := False, maxWait := None\<rparr>) \<and>
   4000 + wait (demo_cfg\<lparr>leading := False, maxWait := None\<rparr>) \<le> 6000 \<and>
   executions (run (demo_cfg\<lparr>leading := False, maxWait := None\<rparr>) demo_after_tom_flushed
     (call_events [(4000, None, [''Jerry'']), (4500, None, [''Lucy'']), (5900, None, [''Alice''])]))
     = [(1000, None, [''Tom''])] \<and>
   executions (advance (demo_cfg\<lparr>leading := False, maxWait := None\<rparr>)
     (run (demo_cfg\<lparr>leading := False, maxWait := None\<rparr>) demo_after_tom_flushed
       (call_events [(4000, None, [''Jerry'']), (4500, None, [''Lucy'']), (5900, None, [''Alice''])])) 6000)
     = [(1000, None, [''Tom'']), (6000, None, [''Alice''])]"
proof -
  let ?cfg = "demo_cfg\<lparr>leading := False, maxWait := None\<rparr>"
  have h1: "trailing ?cfg" "\<not> leading ?cfg" "maxWait ?cfg = None" "0 \<le> wait ?cfg"
    by (simp_all add: demo_cfg_def)
  have h2: "timer demo_after_tom_flushed = None" "tasks demo_after_tom_flushed = []"
    by (simp_all add: demo_after_tom_flushed_eq)
  have h3: "\<forall>x\<in>set [(4500, None, [''Lucy'']), (5900, None, [''Alice''])]. fst x < 4000 + wait ?cfg"
    by (simp add: demo_cfg_def)
  have h4: "4000 + wait ?cfg \<le> 6000" by (simp add: demo_cfg_def)
  show ?thesis
    using h1 h2 h3 h4 coalescing [OF h1 h2 h3 h4, of None "[''Jerry'']"]
    by (simp add: demo_after_tom_flushed_eq demo_cfg_def)
qed

text \<open>
  C2 asks that with \<open>maxWait = M\<close> a caller who keeps calling more often than every
  \<open>wait\<close> sees an execution within \<open>M\<close> of the previous one. The code does not do
  that. With \<open>wait = 2000\<close> and \<open>maxWait = 3000\<close>, calls at 1000, 2950, 4900, 6000,
  7900 and 9800 give the executions at 1000 and 3000 and no other: from the call at 6000
  on each call is forced, finds the timer outstanding and restarts it, and the one task
  left is due at 11800.
\<close>

theorem maxWait_starvation:
  "wait starve_cfg = 2000 \<and> maxWait starve_cfg = Some 3000 \<and>
   executions (run starve_cfg debounce_init starve_calls) =
     [(1000, None, [''a'']), (3000, None, [''b''])] \<and>
   lastCallTime (run starve_cfg debounce_init starve_calls) = Some 9800 \<and>
   tasks (run starve_cfg debounce_init starve_calls) = [(4, 11800)]"
  by (simp add: starve_calls_def starve_cfg_def demo_cfg_def greet_def debounce_init_def
      advance_def fire_def clearTimeout_def debounced_def shouldInvoke_def invokeFunc_def
      trailingEdge_def startTimer_def setTimeout_def Let_def)




text \<open>
  C4, as the code has it. \<open>cancel\<close> removes the outstanding task, so nothing fires for
  the pending window, clears the pending arguments and receiver, and sets
  \<open>lastInvokeTime\<close> to the sentinel \<open>0\<close>; it touches nothing else and returns no value.
  The next proxy call is then forced, and with \<open>leading\<close> it executes at once. A second
  \<open>cancel\<close> changes nothing. With nothing pending, \<open>cancel\<close> still resets
  \<open>lastInvokeTime\<close>: it leaves the state as it is only when \<open>lastInvokeTime\<close> is
  already \<open>0\<close>.
\<close>

theorem cancel_contract:
  assumes "timer_ok s"
  shows "fst (cancel s) = s\<lparr>timer := None, tasks := [], lastArgs := None, lastThis := None,
                             lastInvokeTime := 0\<rparr> \<and>
         fst (fire cfg (fst (cancel s)) h T) = fst (cancel s) \<and>
         advance cfg (fst (cancel s)) T = fst (cancel s) \<and>
         shouldInvoke cfg (fst (cancel s)) now \<and>
         (leading cfg \<longrightarrow>
            executions (fst (debounced cfg (fst (cancel s)) now this args)) =
              executions s @ [(now, this, args)]) \<and>
         fst (cancel (fst (cancel s))) = fst (cancel s) \<and>
         (timer s = None \<and> lastArgs s = None \<and> lastThis s = None \<longrightarrow>
            fst (cancel s) = s\<lparr>lastInvokeTime := 0\<rparr>) \<and>
         (timer s = None \<and> lastArgs s = None \<and> lastThis s = None \<and> lastInvokeTime s = 0 \<longrightarrow>
            fst (cancel s) = s) \<and>
         snd (cancel s) = ()"
proof -
  let ?s' = "s\<lparr>timer := None, tasks := [], lastArgs := None, lastThis := None,
               lastInvokeTime := 0\<rparr>"
  have eq: "fst (cancel s) = ?s'" using assms by (rule cancel_eq)
  have ok': "timer_ok ?s'" by (simp add: timer_ok_def)
  have f: "fst (fire cfg ?s' h T) = ?s'" by (simp add: fire_no_tasks)
  have a: "advance cfg ?s' T = ?s'" by (simp add: advance_no_tasks)
  have si: "shouldInvoke cfg ?s' now" by (simp add: shouldInvoke_def)
  have ex: "leading cfg \<longrightarrow>
      executions (fst (debounced cfg ?s' now this args)) = executions s @ [(now, this, args)]"
  proof
    assume l: "leading cfg"
    let ?s1 = "?s'\<lparr>lastArgs := Some args, lastThis := this, lastCallTime := Some now\<rparr>"
    have "executions (fst (case invokeFunc cfg ?s1 now of
                  (s2, Threw e) \<Rightarrow> (s2, Threw e)
                | (s2, Returned r) \<Rightarrow>
                    (startTimer s2 now (wait cfg), Returned (result (startTimer s2 now (wait cfg))))))
          = executions s @ [(now, this, args)]"
    proof (cases "invokeFunc cfg ?s1 now")
      case (Pair s2 out)
      then have "executions s2 = executions s @ [(now, this, args)]"
        using invokeFunc_frame(6) [of cfg ?s1 now] by simp
      then show ?thesis using Pair by (cases out) (simp_all add: startTimer_frame)
    qed
    then show "executions (fst (debounced cfg ?s' now this args)) = executions s @ [(now, this, args)]"
      using l si by (simp add: debounced_def Let_def)
  qed
  have idem: "fst (cancel ?s') = ?s'" using cancel_eq [OF ok'] by simp
  have noop: "timer s = None \<and> lastArgs s = None \<and> lastThis s = None \<longrightarrow> ?s' = s\<lparr>lastInvokeTime := 0\<rparr>"
    using assms by (auto simp: timer_ok_def)
  have noop0: "timer s = None \<and> lastArgs s = None \<and> lastThis s = None \<and> lastInvokeTime s = 0 \<longrightarrow> ?s' = s"
    using assms by (auto simp: timer_ok_def)
  show ?thesis unfolding eq using f a si ex idem noop noop0 by simp
qed

theorem cancel_contract_witness:
  "timer_ok demo_after_jerry \<and> leading demo_cfg \<and>
   fst (cancel demo_after_jerry) =
     \<lparr>timer = None, lastArgs = None, lastThis = None, lastCallTime = Some 2000,
      lastInvokeTime = 0, result = None, tasks = [], nextHandle = 1,
      executions = [(1000, None, [''Tom''])]\<rparr> \<and>
   advance demo_cfg (fst (cancel demo_after_jerry)) 3000 = fst (cancel demo_after_jerry) \<and>
   executions (fst (debounced demo_cfg (fst (cancel demo_after_jerry)) 2500 None [''Lucy''])) =
     [(1000, None, [''Tom'']), (2500, None, [''Lucy''])] \<and>
   timer_ok demo_after_tom_flushed \<and>
   (timer demo_after_tom_flushed = None \<and> lastArgs demo_after_tom_flushed = None \<and>
    lastThis demo_after_tom_flushed = None) \<and>
   fst (cancel demo_after_tom_flushed) = demo_after_tom_flushed\<lparr>lastInvokeTime := 0\<rparr> \<and>
   timer_ok (debounce_init :: (unit, string, unit) state) \<and>
   (timer (debounce_init :: (unit, string, unit) state) = None \<and>
    lastArgs (debounce_init :: (unit, string, unit) state) = None \<and>
    lastThis (debounce_init :: (unit, string, unit) state) = None \<and>
    lastInvokeTime (debounce_init :: (unit, string, unit) state) = 0) \<and>
   fst (cancel (debounce_init :: (unit, string, unit) state)) = debounce_init"
proof -
  have l: "leading demo_cfg" by (simp add: demo_cfg_def)
  have p: "timer demo_after_tom_flushed = None \<and> lastArgs demo_after_tom_flushed = None \<and>
    lastThis demo_after_tom_flushed = None"
    by (simp add: demo_after_tom_flushed_eq)
  have q: "timer (debounce_init :: (unit, string, unit) state) = None \<and>
    lastArgs (debounce_init :: (unit, string, unit) state) = None \<and>
    lastThis (debounce_init :: (unit, string, unit) state) = None \<and>
    lastInvokeTime (debounce_init :: (unit, string, unit) state) = 0"
    by (simp add: debounce_init_def)
  note A = cancel_contract [OF timer_ok_demo(1), of demo_cfg 0 3000 2500 None "[''Lucy'']"]
  note B = cancel_contract [OF timer_ok_demo(2), of demo_cfg 0 3000 2500 None "[''Lucy'']"]
  note C = cancel_contract [OF timer_ok_demo(3), of demo_cfg 0 3000 2500 None "[''Lucy'']"]
  have a1: "fst (cancel demo_after_jerry) =
     \<lparr>timer = None, lastArgs = None, lastThis = None, lastCallTime = Some 2000,
      lastInvokeTime = 0, result = None, tasks = [], nextHandle = 1,
      executions = [(1000, None, [''Tom''])]\<rparr>"
    using A by (simp add: demo_after_jerry_eq)
  have a2: "advance demo_cfg (fst (cancel demo_after_jerry)) 3000 = fst (cancel demo_after_jerry)"
    using A by blast
  have a3: "executions (fst (debounced demo_cfg (fst (cancel demo_after_jerry)) 2500 None [''Lucy''])) =
     executions demo_after_jerry @ [(2500, None, [''Lucy''])]"
    using A l by blast
  have b1: "fst (cancel demo_after_tom_flushed) = demo_after_tom_flushed\<lparr>lastInvokeTime := 0\<rparr>"
    using B p by blast
  have c1: "fst (cancel (debounce_init :: (unit, string, unit) state)) = debounce_init"
    using C q by blast
  have a3': "executions (fst (debounced demo_cfg (fst (cancel demo_after_jerry)) 2500 None [''Lucy''])) =
     [(1000, None, [''Tom'']), (2500, None, [''Lucy''])]"
    using a3 by (simp add: demo_after_jerry_eq)
  from l p q a1 a2 a3' b1 c1 timer_ok_demo show ?thesis by blast
qed

text \<open>
  The claim as the specification states it has \<open>cancel\<close> change nothing when nothing
  is pending. After the example's first call and a \<open>flush\<close>, nothing is pending, yet
  \<open>cancel\<close> changes the state, and the next call shows it: without the \<open>cancel\<close> it
  executes nothing, with it the leading edge fires.
\<close>

theorem cancel_noop_counterexample:
  "timer demo_after_tom_flushed = None \<and> lastArgs demo_after_tom_flushed = None \<and>
   lastThis demo_after_tom_flushed = None \<and> tasks demo_after_tom_flushed = [] \<and>
   fst (cancel demo_after_tom_flushed) \<noteq> demo_after_tom_flushed \<and>
   executions (fst (debounced demo_cfg demo_after_tom_flushed 2000 None [''Jerry''])) =
     [(1000, None, [''Tom''])] \<and>
   executions (fst (debounced demo_cfg (fst (cancel demo_after_tom_flushed)) 2000 None [''Jerry''])) =
     [(1000, None, [''Tom'']), (2000, None, [''Jerry''])]"
  by (simp add: demo_after_tom_flushed_eq cancel_def debounced_def shouldInvoke_def invokeFunc_def
      startTimer_def setTimeout_def demo_cfg_def greet_def Let_def)

text \<open>
  C5. \<open>flush\<close> with a timer outstanding removes the task from the host and is the
  trailing edge procedure at the current time, result included; with none outstanding it
  returns the stored result and changes nothing. So a second \<open>flush\<close> right after any
  \<open>flush\<close> changes nothing, executes nothing, and returns the stored result, which is
  the value the first one returned when it returned.
\<close>

theorem flush_contract:
  "(timer s = Some h \<longrightarrow>
      flush cfg s now =
        trailingEdge cfg (s\<lparr>tasks := clearTimeout h (tasks s), timer := None\<rparr>) now \<and>
      tasks (fst (flush cfg s now)) = clearTimeout h (tasks s)) \<and>
   (timer_ok s \<longrightarrow> tasks (fst (flush cfg s now)) = []) \<and>
   (timer s = None \<longrightarrow> flush cfg s now = (s, Returned (result s))) \<and>
   flush cfg (fst (flush cfg s now)) now' =
     (fst (flush cfg s now), Returned (result (fst (flush cfg s now)))) \<and>
   (\<forall>r. snd (flush cfg s now) = Returned r \<longrightarrow> result (fst (flush cfg s now)) = r)"
proof -
  have a: "timer s = Some h \<longrightarrow>
      flush cfg s now =
        trailingEdge cfg (s\<lparr>tasks := clearTimeout h (tasks s), timer := None\<rparr>) now \<and>
      tasks (fst (flush cfg s now)) = clearTimeout h (tasks s)"
    by (simp add: flush_def trailingEdge_frame)
  have a': "timer_ok s \<longrightarrow> tasks (fst (flush cfg s now)) = []"
  proof
    assume "timer_ok s"
    then have "timer_ok (fst (flush cfg s now))" by (rule timer_ok_flush)
    then show "tasks (fst (flush cfg s now)) = []" by (simp add: timer_ok_def flush_timer)
  qed
  have b: "timer s = None \<longrightarrow> flush cfg s now = (s, Returned (result s))"
    by (simp add: flush_def)
  have c: "flush cfg (fst (flush cfg s now)) now' =
     (fst (flush cfg s now), Returned (result (fst (flush cfg s now))))"
    using flush_timer [of cfg s now] by (simp add: flush_def [of cfg "fst (flush cfg s now)"])
  have d: "\<forall>r. snd (flush cfg s now) = Returned r \<longrightarrow> result (fst (flush cfg s now)) = r"
    by (auto simp: flush_def trailingEdge_result split: option.splits)
  show ?thesis using a a' b c d by blast
qed

theorem flush_contract_witness:
  "timer demo_after_jerry = Some 0 \<and> timer_ok demo_after_jerry \<and>
   flush demo_cfg demo_after_jerry 2500 =
     (demo_after_tom_flushed\<lparr>lastCallTime := Some 2000, lastInvokeTime := 2500,
        executions := [(1000, None, [''Tom'']), (2500, None, [''Jerry''])]\<rparr>, Returned None) \<and>
   tasks (fst (flush demo_cfg demo_after_jerry 2500)) = [] \<and>
   snd (flush demo_cfg demo_after_jerry 2500) = Returned None \<and>
   result (fst (flush demo_cfg demo_after_jerry 2500)) = None \<and>
   timer demo_after_tom_flushed = None \<and>
   flush demo_cfg demo_after_tom_flushed 2500 =
     (demo_after_tom_flushed, Returned (result demo_after_tom_flushed)) \<and>
   flush demo_cfg (fst (flush demo_cfg demo_after_jerry 2500)) 2600 =
     (fst (flush demo_cfg demo_after_jerry 2500),
      Returned (result (fst (flush demo_cfg demo_after_jerry 2500))))"
proof -
  have h1: "timer demo_after_jerry = Some 0" by (simp add: demo_after_jerry_eq)
  have h2: "timer demo_after_tom_flushed = None" by (simp add: demo_after_tom_flushed_eq)
  have h3: "timer_ok demo_after_jerry" by (rule timer_ok_demo(1))
  have te: "trailingEdge demo_cfg
      (demo_after_jerry\<lparr>tasks := clearTimeout 0 (tasks demo_after_jerry), timer := None\<rparr>) 2500 =
     (demo_after_tom_flushed\<lparr>lastCallTime := Some 2000, lastInvokeTime := 2500,
        executions := [(1000, None, [''Tom'']), (2500, None, [''Jerry''])]\<rparr>, Returned None)"
    by (simp add: demo_after_jerry_eq demo_after_tom_flushed_eq trailingEdge_def invokeFunc_def
        clearTimeout_def demo_cfg_def greet_def Let_def)
  note A = flush_contract [of demo_after_jerry 0 demo_cfg 2500 2600]
  note B = flush_contract [of demo_after_tom_flushed 0 demo_cfg 2500 2600]
  have f1: "flush demo_cfg demo_after_jerry 2500 =
      trailingEdge demo_cfg
        (demo_after_jerry\<lparr>tasks := clearTimeout 0 (tasks demo_after_jerry), timer := None\<rparr>) 2500"
    using h1 A by blast
  have f1': "flush demo_cfg demo_after_jerry 2500 =
     (demo_after_tom_flushed\<lparr>lastCallTime := Some 2000, lastInvokeTime := 2500,
        executions := [(1000, None, [''Tom'']), (2500, None, [''Jerry''])]\<rparr>, Returned None)"
    using f1 te by simp
  have f2: "flush demo_cfg demo_after_tom_flushed 2500 =
      (demo_after_tom_flushed, Returned (result demo_after_tom_flushed))"
    using h2 B by blast
  have f3: "flush demo_cfg (fst (flush demo_cfg demo_after_jerry 2500)) 2600 =
     (fst (flush demo_cfg demo_after_jerry 2500),
      Returned (result (fst (flush demo_cfg demo_after_jerry 2500))))"
    using A by blast
  have f4: "tasks (fst (flush demo_cfg demo_after_jerry 2500)) = []"
    using h3 A by blast
  have f5: "snd (flush demo_cfg demo_after_jerry 2500) = Returned None"
    using f1' by simp
  have f6: "result (fst (flush demo_cfg demo_after_jerry 2500)) = None"
    using f5 A by blast
  from h1 h2 h3 f1' f2 f3 f4 f5 f6 show ?thesis by blast
qed

text \<open>
  C6. In every state the controller can reach, by proxy calls, timer firings, \<open>cancel\<close>
  and \<open>flush\<close> in any order and at any times, the host holds at most one scheduled task
  of this controller; and \<open>startTimer\<close>, the only place that schedules one, leaves
  exactly the new task in the queue.
\<close>

theorem single_timer:
  assumes "reachable cfg s"
  shows "length (tasks s) \<le> 1 \<and> tasks (startTimer s now w) = [(nextHandle s, now + max 0 w)]"
proof -
  have ok: "timer_ok s" using assms by (rule timer_ok_reachable)
  then have "length (map fst (tasks s)) \<le> 1"
    by (simp add: timer_ok_def split: option.splits)
  then show ?thesis using ok by (simp add: startTimer_fresh)
qed

theorem single_timer_witness:
  "reachable demo_cfg demo_after_tom \<and> length (tasks demo_after_tom) \<le> 1 \<and>
   tasks demo_after_tom \<noteq> [] \<and>
   tasks (startTimer demo_after_tom 2000 2000) = [(nextHandle demo_after_tom, 2000 + max 0 2000)]"
  using demo_after_tom_reachable single_timer [OF demo_after_tom_reachable, of 2000 2000]
  by (simp add: demo_after_tom_eq)

text \<open>
  C7, as the code has it. When the clock has not gone back behind \<open>lastInvokeTime\<close>, a
  proxy call, a timer firing and \<open>flush\<close> never move \<open>lastInvokeTime\<close> to a smaller
  value; \<open>cancel\<close> resets it to the sentinel \<open>0\<close>.
\<close>

theorem lastInvokeTime_monotone_but_cancel:
  assumes "lastInvokeTime s \<le> now"
  shows "(ev \<noteq> Cancel \<longrightarrow> lastInvokeTime s \<le> lastInvokeTime (fst (step cfg s (now, ev)))) \<and>
         lastInvokeTime (fst (step cfg s (now, Cancel))) = 0"
proof -
  have "lastInvokeTime (fst (cancel s)) = 0"
    by (simp add: cancel_def Let_def split: option.splits)
  moreover have "ev \<noteq> Cancel \<longrightarrow> lastInvokeTime s \<le> lastInvokeTime (fst (step cfg s (now, ev)))"
  proof (cases ev)
    case (Call this args)
    then show ?thesis using assms debounced_lastInvokeTime [of cfg s now this args] by auto
  next
    case (Fire h)
    then show ?thesis using assms fire_lastInvokeTime [of cfg s h now] by auto
  next
    case Cancel
    then show ?thesis by simp
  next
    case Flush
    then show ?thesis using assms flush_lastInvokeTime [of cfg s now] by auto
  qed
  ultimately show ?thesis by simp
qed

theorem lastInvokeTime_monotone_but_cancel_witness:
  "lastInvokeTime demo_after_jerry \<le> 2500 \<and> (Flush :: (unit, string) event) \<noteq> Cancel \<and>
   lastInvokeTime demo_after_jerry \<le> lastInvokeTime (fst (step demo_cfg demo_after_jerry (2500, Flush))) \<and>
   lastInvokeTime (fst (step demo_cfg demo_after_jerry (2500, Flush))) = 2500 \<and>
   lastInvokeTime (fst (step demo_cfg demo_after_jerry (2500, Cancel))) = 0"
proof -
  have h: "lastInvokeTime demo_after_jerry \<le> 2500" by (simp add: demo_after_jerry_eq)
  have v: "lastInvokeTime (fst (step demo_cfg demo_after_jerry (2500, Flush))) = 2500"
    by (simp add: demo_after_jerry_eq flush_def trailingEdge_def invokeFunc_def demo_cfg_def
        greet_def Let_def)
  show ?thesis
    using h v lastInvokeTime_monotone_but_cancel [OF h, of Flush demo_cfg] by simp
qed

text \<open>
  The claim as the specification states it includes \<open>cancel\<close>. After the example's
  first call \<open>lastInvokeTime\<close> is 1000, and \<open>cancel\<close> moves it down to 0.
\<close>

theorem lastInvokeTime_decreases_counterexample:
  "lastInvokeTime demo_after_tom = 1000 \<and>
   lastInvokeTime (fst (step demo_cfg demo_after_tom (1500, Cancel))) = 0 \<and>
   lastInvokeTime (fst (step demo_cfg demo_after_tom (1500, Cancel))) < lastInvokeTime demo_after_tom"
  by (simp add: demo_after_tom_eq cancel_def)

text \<open>
  C8. A call that finds a timer outstanding and is not forced (\<open>lastInvokeTime\<close> is
  past the sentinel and the \<open>maxWait\<close> bound, if there is one, is not reached) runs
  nothing and leaves the timer and the host's queue as they are: it stores its arguments,
  its receiver and its time, and returns the stored result.
\<close>

theorem call_not_forced_frame:
  assumes "timer s = Some h"
    and "lastInvokeTime s \<noteq> 0"
    and "case maxWait cfg of None \<Rightarrow> True | Some m \<Rightarrow> now - lastInvokeTime s < m"
  shows "debounced cfg s now this args =
           (s\<lparr>lastArgs := Some args, lastThis := this, lastCallTime := Some now\<rparr>,
            Returned (result s))"
  using assms by (simp add: debounced_def shouldInvoke_def split: option.splits)

theorem call_not_forced_frame_witness:
  "timer demo_after_tom = Some 0 \<and> lastInvokeTime demo_after_tom \<noteq> 0 \<and>
   (case maxWait demo_cfg of None \<Rightarrow> True | Some m \<Rightarrow> 2000 - lastInvokeTime demo_after_tom < m) \<and>
   debounced demo_cfg demo_after_tom 2000 None [''Jerry''] =
     (demo_after_tom\<lparr>lastArgs := Some [''Jerry''], lastThis := None, lastCallTime := Some 2000\<rparr>,
      Returned (result demo_after_tom))"
proof -
  have h1: "timer demo_after_tom = Some 0" by (simp add: demo_after_tom_eq)
  have h2: "lastInvokeTime demo_after_tom \<noteq> 0" by (simp add: demo_after_tom_eq)
  have h3: "case maxWait demo_cfg of None \<Rightarrow> True | Some m \<Rightarrow> 2000 - lastInvokeTime demo_after_tom < m"
    by (simp add: demo_after_tom_eq demo_cfg_def)
  show ?thesis using h1 h2 h3 call_not_forced_frame [OF h1 h2 h3, of None "[''Jerry'']"] by simp
qed

text \<open>
  C9, as the code has it. When the action throws in the leading execution of a proxy call,
  or in the execution \<open>flush\<close> triggers, the caller gets the exception. The state then
  has \<open>lastInvokeTime\<close> set to the time of the failed execution and no timer
  outstanding (the proxy starts none, \<open>flush\<close> has cleared it), the stored result is
  the old one, and the pending arguments and receiver are not cleared: the two assignments
  after \<open>fn.apply\<close> are not reached. Yet no stale pending data remains to be executed
  later: the host holds no task, \<open>flush\<close> and a firing change nothing, and whatever runs
  after the throw, every execution it adds has the receiver and arguments of a proxy call
  made after the throw.
\<close>

theorem action_throws:
  "(leading cfg \<and> timer s = None \<and> shouldInvoke cfg s now \<and> fn cfg this args = Inl e \<longrightarrow>
      debounced cfg s now this args =
        (s\<lparr>lastArgs := Some args, lastThis := this, lastCallTime := Some now,
           lastInvokeTime := now, executions := executions s @ [(now, this, args)]\<rparr>,
         Threw e)) \<and>
   (trailing cfg \<and> timer s = Some h \<and> lastArgs s = Some a \<and> fn cfg (lastThis s) a = Inl e \<longrightarrow>
      flush cfg s now =
        (s\<lparr>tasks := clearTimeout h (tasks s), timer := None, lastInvokeTime := now,
           executions := executions s @ [(now, lastThis s, a)]\<rparr>,
         Threw e)) \<and>
   (timer_ok s \<and>
    (leading cfg \<and> timer s = None \<and> shouldInvoke cfg s now \<and> fn cfg this args = Inl e \<and>
       s' = fst (debounced cfg s now this args) \<or>
     trailing cfg \<and> timer s = Some h \<and> lastArgs s = Some a \<and> fn cfg (lastThis s) a = Inl e \<and>
       s' = fst (flush cfg s now)) \<longrightarrow>
      timer s' = None \<and> tasks s' = [] \<and> lastArgs s' \<noteq> None \<and>
      flush cfg s' now' = (s', Returned (result s')) \<and>
      fire cfg s' h' now' = (s', Returned None) \<and>
      (\<exists>new. executions (steps cfg s' tevs) = executions s' @ new \<and>
             snd ` set new \<subseteq> set (called tevs)))"
proof -
  have a: "leading cfg \<and> timer s = None \<and> shouldInvoke cfg s now \<and> fn cfg this args = Inl e \<longrightarrow>
      debounced cfg s now this args =
        (s\<lparr>lastArgs := Some args, lastThis := this, lastCallTime := Some now,
           lastInvokeTime := now, executions := executions s @ [(now, this, args)]\<rparr>,
         Threw e)"
    by (simp add: debounced_def invokeFunc_def Let_def)
  have b: "trailing cfg \<and> timer s = Some h \<and> lastArgs s = Some a \<and> fn cfg (lastThis s) a = Inl e \<longrightarrow>
      flush cfg s now =
        (s\<lparr>tasks := clearTimeout h (tasks s), timer := None, lastInvokeTime := now,
           executions := executions s @ [(now, lastThis s, a)]\<rparr>,
         Threw e)"
    by (simp add: flush_def trailingEdge_def invokeFunc_def Let_def)
  have c: "timer_ok s \<and>
    (leading cfg \<and> timer s = None \<and> shouldInvoke cfg s now \<and> fn cfg this args = Inl e \<and>
       s' = fst (debounced cfg s now this args) \<or>
     trailing cfg \<and> timer s = Some h \<and> lastArgs s = Some a \<and> fn cfg (lastThis s) a = Inl e \<and>
       s' = fst (flush cfg s now)) \<longrightarrow>
      timer s' = None \<and> tasks s' = [] \<and> lastArgs s' \<noteq> None \<and>
      flush cfg s' now' = (s', Returned (result s')) \<and>
      fire cfg s' h' now' = (s', Returned None) \<and>
      (\<exists>new. executions (steps cfg s' tevs) = executions s' @ new \<and>
             snd ` set new \<subseteq> set (called tevs))"
  proof (intro impI, elim conjE)
    assume ok: "timer_ok s"
    assume d: "leading cfg \<and> timer s = None \<and> shouldInvoke cfg s now \<and> fn cfg this args = Inl e \<and>
       s' = fst (debounced cfg s now this args) \<or>
     trailing cfg \<and> timer s = Some h \<and> lastArgs s = Some a \<and> fn cfg (lastThis s) a = Inl e \<and>
       s' = fst (flush cfg s now)"
    have ok': "timer_ok s'"
      using d ok timer_ok_debounced [of s cfg now this args] timer_ok_flush [of s cfg now] by auto
    have tn: "timer s' = None" using d a b by auto
    have la: "lastArgs s' \<noteq> None" using d a b by auto
    show "timer s' = None \<and> tasks s' = [] \<and> lastArgs s' \<noteq> None \<and>
      flush cfg s' now' = (s', Returned (result s')) \<and>
      fire cfg s' h' now' = (s', Returned None) \<and>
      (\<exists>new. executions (steps cfg s' tevs) = executions s' @ new \<and>
             snd ` set new \<subseteq> set (called tevs))"
      using no_replay [OF ok' tn, of cfg now' h' tevs] tn la by simp
  qed
  show ?thesis using a b c by (intro conjI)
qed

theorem action_throws_witness:
  "leading (demo_cfg\<lparr>fn := boom\<rparr>) \<and> timer (debounce_init :: (unit, string, unit) state) = None \<and>
   shouldInvoke (demo_cfg\<lparr>fn := boom\<rparr>) debounce_init 1000 \<and>
   fn (demo_cfg\<lparr>fn := boom\<rparr>) None [''Tom''] = Inl () \<and>
   debounced (demo_cfg\<lparr>fn := boom\<rparr>) debounce_init 1000 None [''Tom''] =
     (debounce_init\<lparr>lastArgs := Some [''Tom''], lastThis := None, lastCallTime := Some 1000,
        lastInvokeTime := 1000, executions := [(1000, None, [''Tom''])]\<rparr>, Threw ()) \<and>
   trailing (demo_cfg\<lparr>fn := boom, leading := False\<rparr>) \<and> timer demo_boom_pending = Some 0 \<and>
   lastArgs demo_boom_pending = Some [''Tom''] \<and>
   fn (demo_cfg\<lparr>fn := boom, leading := False\<rparr>) (lastThis demo_boom_pending) [''Tom''] = Inl () \<and>
   flush (demo_cfg\<lparr>fn := boom, leading := False\<rparr>) demo_boom_pending 1500 =
     (demo_boom_pending\<lparr>tasks := [], timer := None, lastInvokeTime := 1500,
        executions := [(1500, None, [''Tom''])]\<rparr>, Threw ()) \<and>
   timer_ok (debounce_init :: (unit, string, unit) state) \<and>
   timer demo_boom_thrown = None \<and> tasks demo_boom_thrown = [] \<and>
   lastArgs demo_boom_thrown \<noteq> None \<and>
   flush (demo_cfg\<lparr>fn := boom\<rparr>) demo_boom_thrown 1200 =
     (demo_boom_thrown, Returned (result demo_boom_thrown)) \<and>
   fire (demo_cfg\<lparr>fn := boom\<rparr>) demo_boom_thrown 0 1300 = (demo_boom_thrown, Returned None) \<and>
   (\<exists>new. executions (steps (demo_cfg\<lparr>fn := boom\<rparr>) demo_boom_thrown
        [(1200, Flush), (1300, Fire 0), (1500, Call None [''Jerry'']), (3600, Fire 0)]) =
        executions demo_boom_thrown @ new \<and>
      snd ` set new \<subseteq> set (called
        [(1200, Flush), (1300, Fire 0), (1500, Call None [''Jerry'']), (3600, Fire 0)])) \<and>
   executions (steps (demo_cfg\<lparr>fn := boom\<rparr>) demo_boom_thrown
      [(1200, Flush), (1300, Fire 0), (1500, Call None [''Jerry'']), (3600, Fire 0)]) =
     [(1000, None, [''Tom'']), (3600, None, [''Jerry''])] \<and>
   timer_ok demo_boom_pending \<and>
   timer (fst (flush (demo_cfg\<lparr>fn := boom, leading := False\<rparr>) demo_boom_pending 1500)) = None \<and>
   tasks (fst (flush (demo_cfg\<lparr>fn := boom, leading := False\<rparr>) demo_boom_pending 1500)) = []"
proof -
  let ?c1 = "demo_cfg\<lparr>fn := boom\<rparr>"
  let ?c2 = "demo_cfg\<lparr>fn := boom, leading := False\<rparr>"
  let ?i = "debounce_init :: (unit, string, unit) state"
  let ?tevs = "[(1200, Flush), (1300, Fire 0), (1500, Call None [''Jerry'']), (3600, Fire 0)]
      :: (int \<times> (unit, string) event) list"
  let ?s2 = "fst (flush ?c2 demo_boom_pending 1500)"
  have h1: "leading ?c1 \<and> timer ?i = None \<and> shouldInvoke ?c1 ?i 1000 \<and> fn ?c1 None [''Tom''] = Inl ()"
    by (simp add: demo_cfg_def debounce_init_def shouldInvoke_def boom_def)
  have h2: "trailing ?c2 \<and> timer demo_boom_pending = Some 0 \<and>
      lastArgs demo_boom_pending = Some [''Tom''] \<and>
      fn ?c2 (lastThis demo_boom_pending) [''Tom''] = Inl ()"
    by (simp add: demo_cfg_def demo_boom_pending_eq boom_def)
  have k1: "timer_ok ?i" by (rule timer_ok_demo(3))
  have k2: "timer_ok demo_boom_pending" by (rule timer_ok_boom)
  have e1: "demo_boom_thrown = fst (debounced ?c1 ?i 1000 None [''Tom''])"
    by (simp add: demo_boom_thrown_def)
  note A = action_throws [of ?c1 ?i 1000 None "[''Tom'']" "()" 0 "[''Tom'']" demo_boom_thrown
      1200 0 ?tevs]
  note A' = action_throws [of ?c1 ?i 1000 None "[''Tom'']" "()" 0 "[''Tom'']" demo_boom_thrown
      1300 0 ?tevs]
  note B = action_throws [of ?c2 demo_boom_pending 1500 None "[''Tom'']" "()" 0 "[''Tom'']" ?s2
      1600 0 ?tevs]
  have a: "debounced ?c1 ?i 1000 None [''Tom''] =
        (?i\<lparr>lastArgs := Some [''Tom''], lastThis := None, lastCallTime := Some 1000,
           lastInvokeTime := 1000, executions := executions ?i @ [(1000, None, [''Tom''])]\<rparr>,
         Threw ())"
    using h1 A by blast
  have b: "flush ?c2 demo_boom_pending 1500 =
        (demo_boom_pending\<lparr>tasks := clearTimeout 0 (tasks demo_boom_pending), timer := None,
           lastInvokeTime := 1500,
           executions := executions demo_boom_pending @ [(1500, lastThis demo_boom_pending, [''Tom''])]\<rparr>,
         Threw ())"
    using h2 B by blast
  have a': "debounced ?c1 ?i 1000 None [''Tom''] =
     (?i\<lparr>lastArgs := Some [''Tom''], lastThis := None, lastCallTime := Some 1000,
        lastInvokeTime := 1000, executions := [(1000, None, [''Tom''])]\<rparr>, Threw ())"
    using a by (simp add: debounce_init_def)
  have b': "flush ?c2 demo_boom_pending 1500 =
     (demo_boom_pending\<lparr>tasks := [], timer := None, lastInvokeTime := 1500,
        executions := [(1500, None, [''Tom''])]\<rparr>, Threw ())"
    using b by (simp add: demo_boom_pending_eq clearTimeout_def)
  have c1: "timer demo_boom_thrown = None \<and> tasks demo_boom_thrown = [] \<and>
      lastArgs demo_boom_thrown \<noteq> None \<and>
      flush ?c1 demo_boom_thrown 1200 = (demo_boom_thrown, Returned (result demo_boom_thrown)) \<and>
      (\<exists>new. executions (steps ?c1 demo_boom_thrown ?tevs) = executions demo_boom_thrown @ new \<and>
             snd ` set new \<subseteq> set (called ?tevs))"
    using h1 k1 e1 A by blast
  have c2: "fire ?c1 demo_boom_thrown 0 1300 = (demo_boom_thrown, Returned None)"
    using h1 k1 e1 A' by blast
  have c3: "timer ?s2 = None \<and> tasks ?s2 = []"
    using h2 k2 B by blast
  from h1 h2 k1 k2 a' b' c1 c2 c3 demo_boom_thrown_later show ?thesis by blast
qed

text \<open>
  The claim as the specification states it has the pending arguments cleared after the
  throw. With an action that throws, the first call leaves them in place.
\<close>

theorem pending_not_cleared_counterexample:
  "snd (debounced (demo_cfg\<lparr>fn := boom\<rparr>) debounce_init 1000 None [''Tom'']) = Threw () \<and>
   lastArgs (fst (debounced (demo_cfg\<lparr>fn := boom\<rparr>) debounce_init 1000 None [''Tom'']))
     = Some [''Tom''] \<and>
   lastArgs (fst (debounced (demo_cfg\<lparr>fn := boom\<rparr>) debounce_init 1000 None [''Tom'']))
     \<noteq> None"
  by (simp add: debounced_def shouldInvoke_def invokeFunc_def demo_cfg_def boom_def
      debounce_init_def Let_def)

text \<open>
  C10, as the code has it. An execution at clock time \<open>0\<close> stores \<open>0\<close> in
  \<open>lastInvokeTime\<close>, the value it has on a controller that never executed; though the
  execution is on record, \<open>shouldInvoke\<close> is then true at every time and for every
  \<open>maxWait\<close>. It stays so through any later events for as long as every execution they
  add also happens at clock time \<open>0\<close>.
\<close>

theorem execution_at_time_zero:
  "lastInvokeTime (fst (invokeFunc cfg s 0)) = 0 \<and>
   lastInvokeTime (fst (invokeFunc cfg s 0)) = lastInvokeTime debounce_init \<and>
   executions (fst (invokeFunc cfg s 0)) =
     executions s @ [(0, lastThis s, case lastArgs s of None \<Rightarrow> [] | Some a \<Rightarrow> a)] \<and>
   shouldInvoke cfg' (fst (invokeFunc cfg s 0)) now \<and>
   (executions (steps cfg (fst (invokeFunc cfg s 0)) tevs) =
      executions (fst (invokeFunc cfg s 0)) @ new \<and>
    list_all (\<lambda>x. fst x = 0) new \<longrightarrow>
      lastInvokeTime (steps cfg (fst (invokeFunc cfg s 0)) tevs) = 0 \<and>
      shouldInvoke cfg' (steps cfg (fst (invokeFunc cfg s 0)) tevs) now')"
proof -
  have z: "lastInvokeTime (fst (invokeFunc cfg s 0)) = 0" by (simp add: invokeFunc_frame)
  have later: "executions (steps cfg (fst (invokeFunc cfg s 0)) tevs) =
      executions (fst (invokeFunc cfg s 0)) @ new \<and>
    list_all (\<lambda>x. fst x = 0) new \<longrightarrow>
      lastInvokeTime (steps cfg (fst (invokeFunc cfg s 0)) tevs) = 0 \<and>
      shouldInvoke cfg' (steps cfg (fst (invokeFunc cfg s 0)) tevs) now'"
  proof (intro impI, elim conjE)
    assume "executions (steps cfg (fst (invokeFunc cfg s 0)) tevs) =
      executions (fst (invokeFunc cfg s 0)) @ new"
      and "list_all (\<lambda>x. fst x = 0) new"
    with z have "lastInvokeTime (steps cfg (fst (invokeFunc cfg s 0)) tevs) = 0"
      by (rule steps_zero)
    then show "lastInvokeTime (steps cfg (fst (invokeFunc cfg s 0)) tevs) = 0 \<and>
      shouldInvoke cfg' (steps cfg (fst (invokeFunc cfg s 0)) tevs) now'"
      by (simp add: shouldInvoke_def)
  qed
  show ?thesis
    using later by (simp add: invokeFunc_frame shouldInvoke_def debounce_init_def)
qed

theorem execution_at_time_zero_witness:
  "executions (steps demo_cfg (fst (invokeFunc demo_cfg demo_zero_pending 0))
      [(0, Call None [''Jerry'']), (1500, Call None [''Lucy''])]) =
     executions (fst (invokeFunc demo_cfg demo_zero_pending 0)) @ [(0, None, [''Jerry''])] \<and>
   list_all (\<lambda>x. fst x = 0) [(0 :: int, None :: unit option, [''Jerry''])] \<and>
   executions (steps demo_cfg (fst (invokeFunc demo_cfg demo_zero_pending 0))
      [(0, Call None [''Jerry'']), (1500, Call None [''Lucy''])]) =
     [(0, None, [''Tom'']), (0, None, [''Jerry''])] \<and>
   lastInvokeTime (steps demo_cfg (fst (invokeFunc demo_cfg demo_zero_pending 0))
      [(0, Call None [''Jerry'']), (1500, Call None [''Lucy''])]) = 0 \<and>
   shouldInvoke (demo_cfg\<lparr>maxWait := None\<rparr>)
     (steps demo_cfg (fst (invokeFunc demo_cfg demo_zero_pending 0))
        [(0, Call None [''Jerry'']), (1500, Call None [''Lucy''])]) 1600"
proof -
  let ?s0 = "fst (invokeFunc demo_cfg demo_zero_pending 0)"
  let ?tevs = "[(0, Call None [''Jerry'']), (1500, Call None [''Lucy''])]
      :: (int \<times> (unit, string) event) list"
  have e0: "executions ?s0 = [(0, None, [''Tom''])]"
    by (simp add: invokeFunc_frame demo_zero_pending_def debounce_init_def)
  have h1: "executions (steps demo_cfg ?s0 ?tevs) = executions ?s0 @ [(0, None, [''Jerry''])]"
    unfolding e0 by (simp add: demo_zero_steps)
  have h2: "list_all (\<lambda>x. fst x = 0) [(0 :: int, None :: unit option, [''Jerry''])]" by simp
  have v: "executions (steps demo_cfg ?s0 ?tevs) = [(0, None, [''Tom'']), (0, None, [''Jerry''])]"
    by (simp add: demo_zero_steps)
  have "lastInvokeTime (steps demo_cfg ?s0 ?tevs) = 0 \<and>
        shouldInvoke (demo_cfg\<lparr>maxWait := None\<rparr>) (steps demo_cfg ?s0 ?tevs) 1600"
    using h1 h2
      execution_at_time_zero [of demo_cfg demo_zero_pending "demo_cfg\<lparr>maxWait := None\<rparr>" 0
        ?tevs "[(0, None, [''Jerry''])]" 1600]
    by blast
  with h1 h2 v show ?thesis by blast
qed

text \<open>
  The claim as the specification states it has every later call forced. In the source's
  example with the first call at time 0, the call at 2500 is forced and executes, which
  stores 2500; the call at 2600 is not forced, with or without \<open>maxWait\<close>.
\<close>

theorem forced_after_zero_counterexample:
  "executions (run demo_cfg debounce_init [(0, Call None [''Tom''])]) = [(0, None, [''Tom''])] \<and>
   lastInvokeTime (run demo_cfg debounce_init [(0, Call None [''Tom''])]) = 0 \<and>
   executions (run demo_cfg debounce_init [(0, Call None [''Tom'']), (2500, Call None [''Jerry''])]) =
     [(0, None, [''Tom'']), (2500, None, [''Jerry''])] \<and>
   \<not> shouldInvoke demo_cfg
     (run demo_cfg debounce_init [(0, Call None [''Tom'']), (2500, Call None [''Jerry''])]) 2600 \<and>
   \<not> shouldInvoke (demo_cfg\<lparr>maxWait := None\<rparr>)
     (run demo_cfg debounce_init [(0, Call None [''Tom'']), (2500, Call None [''Jerry''])]) 2600"
  by (simp add: advance_def fire_def debounced_def shouldInvoke_def startTimer_def
      setTimeout_def clearTimeout_def trailingEdge_def invokeFunc_def demo_cfg_def greet_def
      debounce_init_def Let_def)

end
